theory Spec2Isabelle
  imports Main
begin

section \<open>Data model\<close>

text \<open>
  The calculator is a pipeline of three stages written in Python:
  \<^verbatim>\<open>tokenize_expression\<close> (string to tokens), \<^verbatim>\<open>build_ast\<close> (tokens to tree) and
  \<^verbatim>\<open>evaluate_tree\<close> / \<^verbatim>\<open>generate_truth_table\<close> (tree to truth values).
  Every exception the Python raises is a value of the type \<open>error\<close> and every function that
  can raise returns a sum, with \<open>Inl\<close> for the exception.

  Strings are lists of \<open>char\<close>; the character tests below are those of Python's \<^verbatim>\<open>str\<close>
  on the ASCII range.
\<close>

text \<open>\<^verbatim>\<open>tokenizer.TokenType\<close>: three string constants used as an enumeration.\<close>

datatype TokenType = OPERATOR | OPERAND | PARENTHESIS

text \<open>
  The \<^verbatim>\<open>value\<close> attribute of a token and of a tree node is a Python \<^verbatim>\<open>str\<close> or
  \<^verbatim>\<open>bool\<close>.
\<close>

datatype pyval = VBool bool | VStr string

text \<open>
  What the evaluator computes with: the leaves give Python \<^verbatim>\<open>bool\<close>s, the operator
  functions give \<^verbatim>\<open>int\<close>s (each lambda ends in \<^verbatim>\<open>int(...)\<close>).
\<close>

datatype pynum = PBool bool | PInt int

text \<open>
  \<^verbatim>\<open>tokenizer.Token\<close>. The attribute \<^verbatim>\<open>value\<close> is the field \<open>tvalue\<close>.  The attribute
  \<^verbatim>\<open>func\<close> is stored by the lexer and read by nobody (the evaluator looks the function
  up in the operator table by the node's value), so the record does not carry it.
\<close>

record Token =
  token_type :: TokenType
  tvalue :: pyval
  precedence :: "int option"
  associativity :: "string option"

text \<open>
  \<^verbatim>\<open>syntax_tree.ASTNode(value, left=None, right=None)\<close>: the children are optional,
  \<open>None\<close> is Python's \<^verbatim>\<open>None\<close>.
\<close>

datatype ASTNode = ASTNode (nvalue: pyval) (left: "ASTNode option") (right: "ASTNode option")

text \<open>
  The exceptions of the three stages. The two \<^verbatim>\<open>ValueError\<close>s of the source carry the
  offending character and token; \<open>IndexError\<close> is \<^verbatim>\<open>tokens.pop(0)\<close> on an empty list,
  \<open>KeyError\<close> a value that is no key of the operator table, \<open>TypeError\<close> an operator function
  called with the wrong number of arguments (or \<^verbatim>\<open>None >= int\<close>), \<open>AttributeError\<close>
  the evaluator reaching a child that is \<^verbatim>\<open>None\<close>.
\<close>

datatype error =
    ValueError_Unknown_character char
  | ValueError_Unexpected_token Token
  | IndexError
  | KeyError pyval
  | TypeError
  | AttributeError

section \<open>The operator table (logic_operators.py)\<close>

definition truthy :: "pynum \<Rightarrow> bool" where
  "truthy a = (case a of PBool b \<Rightarrow> b | PInt i \<Rightarrow> i \<noteq> 0)"

text \<open>Python's \<^verbatim>\<open>int(x)\<close> on a \<^verbatim>\<open>bool\<close> or an \<^verbatim>\<open>int\<close>.\<close>

definition py_int :: "pynum \<Rightarrow> int" where
  "py_int a = (case a of PBool b \<Rightarrow> (if b then 1 else 0) | PInt i \<Rightarrow> i)"

text \<open>\<^verbatim>\<open>a and b\<close>, \<^verbatim>\<open>a or b\<close> return one of their operands; \<^verbatim>\<open>not a\<close> returns a bool.\<close>

definition py_and :: "pynum \<Rightarrow> pynum \<Rightarrow> pynum" where
  "py_and a b = (if truthy a then b else a)"

definition py_or :: "pynum \<Rightarrow> pynum \<Rightarrow> pynum" where
  "py_or a b = (if truthy a then a else b)"

definition py_not :: "pynum \<Rightarrow> pynum" where
  "py_not a = PBool (\<not> truthy a)"

text \<open>\<^verbatim>\<open>a == b\<close> between bools and ints compares the numbers (\<^verbatim>\<open>True == 1\<close>).\<close>

definition py_eq :: "pynum \<Rightarrow> pynum \<Rightarrow> pynum" where
  "py_eq a b = PBool (py_int a = py_int b)"

definition py_ne :: "pynum \<Rightarrow> pynum \<Rightarrow> pynum" where
  "py_ne a b = PBool (py_int a \<noteq> py_int b)"

text \<open>
  An entry of the table is \<^verbatim>\<open>[precedence, lambda]\<close>. The lambda of \<^verbatim>\<open>NOT\<close> takes one
  argument, the others two; calling one with the other number of arguments is a
  \<^verbatim>\<open>TypeError\<close>.
\<close>

datatype opfun = Unary "pynum \<Rightarrow> pynum" | Binary "pynum \<Rightarrow> pynum \<Rightarrow> pynum"

text \<open>The dictionary, in its insertion order (the order in which the lexer tries the keys).\<close>

definition operators :: "(string \<times> int \<times> opfun) list" where
  "operators =
    [(''NOT'', 1, Unary (\<lambda>a. PInt (py_int (py_not a)))),
     (''AND'', 2, Binary (\<lambda>a b. PInt (py_int (py_and a b)))),
     (''XOR'', 3, Binary (\<lambda>a b. PInt (py_int (py_ne a b)))),
     (''OR'', 4, Binary (\<lambda>a b. PInt (py_int (py_or a b)))),
     (''IMP'', 5, Binary (\<lambda>a b. PInt (py_int (py_or (py_not a) b)))),
     (''IFF'', 6, Binary (\<lambda>a b. PInt (py_int (py_eq a b))))]"

text \<open>\<^verbatim>\<open>operators[key]\<close>: a key that is not a string of the table is a \<^verbatim>\<open>KeyError\<close>.\<close>

definition operators_get :: "pyval \<Rightarrow> error + (int \<times> opfun)" where
  "operators_get key =
     (case key of
        VBool b \<Rightarrow> Inl (KeyError key)
      | VStr s \<Rightarrow> (case map_of operators s of None \<Rightarrow> Inl (KeyError key) | Some entry \<Rightarrow> Inr entry))"

definition call1 :: "opfun \<Rightarrow> pynum \<Rightarrow> error + pynum" where
  "call1 f a = (case f of Unary g \<Rightarrow> Inr (g a) | Binary g \<Rightarrow> Inl TypeError)"

definition call2 :: "opfun \<Rightarrow> pynum \<Rightarrow> pynum \<Rightarrow> error + pynum" where
  "call2 f a b = (case f of Unary g \<Rightarrow> Inl TypeError | Binary g \<Rightarrow> Inr (g a b))"

section \<open>The lexer (tokenize_expression)\<close>

text \<open>
  \<^verbatim>\<open>str.isspace\<close>, \<^verbatim>\<open>str.isalpha\<close> and \<^verbatim>\<open>str.upper\<close> as they are on ASCII characters. Beyond
  ASCII Python knows further spaces and letters, and its \<^verbatim>\<open>upper\<close> can map one character to
  two; the three functions below do not follow it there. The statements about arbitrary
  texts are therefore made for ASCII texts (\<open>ascii_text\<close> below).
\<close>

definition py_isspace :: "char \<Rightarrow> bool" where
  "py_isspace c = (let n = (of_char c :: nat) in n = 32 \<or> (9 \<le> n \<and> n \<le> 13) \<or> (28 \<le> n \<and> n \<le> 31))"

definition py_isalpha :: "char \<Rightarrow> bool" where
  "py_isalpha c = (let n = (of_char c :: nat) in (65 \<le> n \<and> n \<le> 90) \<or> (97 \<le> n \<and> n \<le> 122))"

definition py_upper_char :: "char \<Rightarrow> char" where
  "py_upper_char c = (let n = (of_char c :: nat) in if 97 \<le> n \<and> n \<le> 122 then char_of (n - 32) else c)"

definition py_upper :: "string \<Rightarrow> string" where
  "py_upper s = map py_upper_char s"

definition paren_token :: "string \<Rightarrow> Token" where
  "paren_token s = \<lparr>token_type = PARENTHESIS, tvalue = VStr s, precedence = None, associativity = None\<rparr>"

definition operand_token :: "pyval \<Rightarrow> Token" where
  "operand_token v = \<lparr>token_type = OPERAND, tvalue = v, precedence = None, associativity = None\<rparr>"

definition operator_token :: "string \<Rightarrow> int \<Rightarrow> Token" where
  "operator_token op p =
     \<lparr>token_type = OPERATOR, tvalue = VStr op, precedence = Some p,
      associativity = Some (if op = ''NOT'' then ''right'' else ''left'')\<rparr>"

text \<open>
  \<^verbatim>\<open>expression[index:index+len(op)] == op\<close>, on the rest of the string from \<^verbatim>\<open>index\<close>.
\<close>

definition starts_with :: "string \<Rightarrow> string \<Rightarrow> bool" where
  "starts_with op s = (take (length op) s = op)"

text \<open>
  The \<^verbatim>\<open>for op in operators.keys()\<close> loop: the first key, in table order, that the rest
  of the string starts with, together with its entry.
\<close>

definition match_operator :: "string \<Rightarrow> (string \<times> int \<times> opfun) option" where
  "match_operator s = find (\<lambda>(op, entry). starts_with op s) operators"

lemma match_operator_nonempty: "match_operator s = Some (op, entry) \<Longrightarrow> 0 < length op"
  by (auto simp: match_operator_def operators_def find_Some_iff in_set_conv_nth nth_Cons'
           split: if_splits)

text \<open>
  The \<^verbatim>\<open>while index < len(expression)\<close> loop. The state is the list of tokens so far and
  the rest of the (upper-cased) string from \<^verbatim>\<open>index\<close> on.
\<close>

function tokenize_loop :: "Token list \<Rightarrow> string \<Rightarrow> error + Token list" where
  "tokenize_loop tokens [] = Inr tokens"
| "tokenize_loop tokens (char # rest) =
     (if py_isspace char then tokenize_loop tokens rest
      else if char = CHR ''('' then tokenize_loop (tokens @ [paren_token ''('']) rest
      else if char = CHR '')'' then tokenize_loop (tokens @ [paren_token '')'']) rest
      else if starts_with ''TRUE'' (char # rest) then
        tokenize_loop (tokens @ [operand_token (VBool True)]) (drop 4 (char # rest))
      else if starts_with ''FALSE'' (char # rest) then
        tokenize_loop (tokens @ [operand_token (VBool False)]) (drop 5 (char # rest))
      else
        (case match_operator (char # rest) of
           Some (op, p, func) \<Rightarrow>
             tokenize_loop (tokens @ [operator_token op p]) (drop (length op) (char # rest))
         | None \<Rightarrow>
             if py_isalpha char then tokenize_loop (tokens @ [operand_token (VStr [char])]) rest
             else Inl (ValueError_Unknown_character char)))"
  by pat_completeness auto
termination
  by (relation "measure (\<lambda>(tokens, s). length s)") (auto dest: match_operator_nonempty)

definition tokenize_expression :: "string \<Rightarrow> error + Token list" where
  "tokenize_expression expression = tokenize_loop [] (py_upper expression)"

section \<open>The parser (build_ast)\<close>

text \<open>
  The Python parser pops tokens off the front of one shared list. Here every function
  takes the list and returns the node together with the tokens left.
  \<^verbatim>\<open>build_ast(tokens)\<close> only defines the two closures and returns \<^verbatim>\<open>parse_operator(0)\<close>,
  so the recursive call of \<^verbatim>\<open>build_ast\<close> inside \<^verbatim>\<open>parse_primary\<close> is \<open>parse_operator 0\<close>
  on the tokens left. \<open>parse_while\<close> is the \<^verbatim>\<open>while\<close> loop of \<^verbatim>\<open>parse_operator\<close>.
\<close>

function parse_primary :: "Token list \<Rightarrow> error + (ASTNode \<times> Token list)"
  and parse_operator :: "int \<Rightarrow> Token list \<Rightarrow> error + (ASTNode \<times> Token list)"
  and parse_while :: "int \<Rightarrow> ASTNode \<Rightarrow> Token list \<Rightarrow> error + (ASTNode \<times> Token list)"
where
  "parse_primary [] = Inl IndexError"
| "parse_primary (token # tokens) =
     (if token_type token = OPERAND then Inr (ASTNode (tvalue token) None None, tokens)
      else if token_type token = PARENTHESIS \<and> tvalue token = VStr ''('' then
        (case parse_operator 0 tokens of
           Inl e \<Rightarrow> Inl e
         | Inr (node, tokens') \<Rightarrow>
             (case tokens' of
                [] \<Rightarrow> Inr (node, [])
              | t # tokens'' \<Rightarrow>
                  if tvalue t = VStr '')'' then Inr (node, tokens'') else Inr (node, tokens')))
      else if token_type token = OPERATOR \<and> tvalue token = VStr ''NOT'' then
        (case parse_primary tokens of
           Inl e \<Rightarrow> Inl e
         | Inr (operand, tokens') \<Rightarrow> Inr (ASTNode (tvalue token) (Some operand) None, tokens'))
      else Inl (ValueError_Unexpected_token token))"
| "parse_operator precedence_level tokens =
     (case parse_primary tokens of
        Inl e \<Rightarrow> Inl e
      | Inr (node, tokens') \<Rightarrow> parse_while precedence_level node tokens')"
| "parse_while precedence_level node [] = Inr (node, [])"
| "parse_while precedence_level node (token # tokens) =
     (if token_type token = OPERATOR then
        (case precedence token of
           None \<Rightarrow> Inl TypeError
         | Some p \<Rightarrow>
             if p \<ge> precedence_level then
               (case parse_operator (if associativity token = Some ''left'' then p + 1 else p) tokens of
                  Inl e \<Rightarrow> Inl e
                | Inr (rhs, tokens') \<Rightarrow>
                    parse_while precedence_level (ASTNode (tvalue token) (Some node) (Some rhs)) tokens')
             else Inr (node, token # tokens))
      else Inr (node, token # tokens))"
  by pat_completeness auto

termination
proof -
  \<comment> \<open>Every call of \<open>parse_primary\<close> pops a token, so a call returns fewer tokens than it
      was given, and the loop goes on with a shorter list.\<close>
  have len:
    "parse_primary_parse_operator_parse_while_dom (Inl ts) \<Longrightarrow>
       parse_primary ts = Inr (n, r) \<Longrightarrow> length r < length ts"
    "parse_primary_parse_operator_parse_while_dom (Inr (Inl (l, ts))) \<Longrightarrow>
       parse_operator l ts = Inr (n, r) \<Longrightarrow> length r < length ts"
    "parse_primary_parse_operator_parse_while_dom (Inr (Inr (l, nd, ts))) \<Longrightarrow>
       parse_while l nd ts = Inr (n, r) \<Longrightarrow> length r \<le> length ts"
    for ts l nd n r
  proof (induction ts and l ts and l nd ts arbitrary: n r and n r and n r
         rule: parse_primary_parse_operator_parse_while.pinduct)
    case 1
    then show ?case by (simp add: parse_primary.psimps)
  next
    case (2 token tokens)
    from 2(4) 2(1) show ?case
      apply (simp add: parse_primary.psimps split: if_splits sum.splits prod.splits list.splits)
      using 2(2,3) by fastforce+
  next
    case (3 precedence_level tokens)
    from 3(4) 3(1) show ?case
      apply (simp add: parse_operator.psimps split: sum.splits prod.splits)
      using 3(2,3) by fastforce
  next
    case (4 precedence_level node)
    then show ?case by (simp add: parse_while.psimps)
  next
    case (5 precedence_level node token tokens)
    from 5(4) 5(1) show ?case
      apply (simp add: parse_while.psimps split: if_splits option.splits sum.splits prod.splits)
      using 5(2,3) by fastforce+
  qed
  show ?thesis
  proof (relation "measure (\<lambda>x. case x of Inl ts \<Rightarrow> 3 * length ts
                                     | Inr (Inl (_, ts)) \<Rightarrow> 3 * length ts + 1
                                     | Inr (Inr (_, _, ts)) \<Rightarrow> 3 * length ts + 2)", goal_cases)
    case 1 show ?case by simp
  next
    case 2 then show ?case by simp
  next
    case 3 then show ?case by simp
  next
    case 4 then show ?case by simp
  next
    case (5 l ts b n r)
    then show ?case using len(1)[of ts n r] by auto
  next
    case 6 then show ?case by simp
  next
    case (7 l nd t ts p b n r)
    then show ?case
      using len(2)[of "if associativity t = Some ''left'' then p + 1 else p" ts n r]
      by auto
  qed
qed

text \<open>
  \<^verbatim>\<open>build_ast(tokens)\<close> as its caller sees it: the node that \<^verbatim>\<open>parse_operator(0)\<close>
  returns. The tokens left in the list are not looked at.
\<close>

definition build_ast :: "Token list \<Rightarrow> error + ASTNode" where
  "build_ast tokens =
     (case parse_operator 0 tokens of Inl e \<Rightarrow> Inl e | Inr (node, tokens') \<Rightarrow> Inr node)"

section \<open>The evaluator (evaluate_tree)\<close>

text \<open>
  A Python \<^verbatim>\<open>dict\<close> as an association list in insertion order; storing under a key that
  is present replaces the value in place.
\<close>

fun dict_set :: "('k \<times> 'v) list \<Rightarrow> 'k \<Rightarrow> 'v \<Rightarrow> ('k \<times> 'v) list" where
  "dict_set [] k v = [(k, v)]"
| "dict_set ((k', v') # d) k v = (if k' = k then (k, v) # d else (k', v') # dict_set d k v)"

text \<open>
  The three cases of \<^verbatim>\<open>evaluate_tree\<close>, in the order of the source: no children, a left
  child only, anything else. In the last case a node with a right child only makes the
  Python read \<^verbatim>\<open>None.left\<close>. The children are evaluated before the table is consulted.
\<close>

fun evaluate_tree :: "ASTNode \<Rightarrow> (string \<times> pynum) list \<Rightarrow> error + pynum" where
  "evaluate_tree (ASTNode v None None) variable_values =
     (case v of
        VStr s \<Rightarrow> (case map_of variable_values s of Some x \<Rightarrow> Inr x | None \<Rightarrow> Inr (PBool False))
      | VBool b \<Rightarrow> Inr (PBool b))"
| "evaluate_tree (ASTNode v (Some l) None) variable_values =
     (case evaluate_tree l variable_values of
        Inl e \<Rightarrow> Inl e
      | Inr operand \<Rightarrow>
          (case operators_get v of Inl e \<Rightarrow> Inl e | Inr (p, func) \<Rightarrow> call1 func operand))"
| "evaluate_tree (ASTNode v None (Some r)) variable_values = Inl AttributeError"
| "evaluate_tree (ASTNode v (Some l) (Some r)) variable_values =
     (case evaluate_tree l variable_values of
        Inl e \<Rightarrow> Inl e
      | Inr left_value \<Rightarrow>
          (case evaluate_tree r variable_values of
             Inl e \<Rightarrow> Inl e
           | Inr right_value \<Rightarrow>
               (case operators_get v of
                  Inl e \<Rightarrow> Inl e
                | Inr (p, func) \<Rightarrow> call2 func left_value right_value)))"

section \<open>The truth table (generate_truth_combinations, generate_truth_table)\<close>

text \<open>\<^verbatim>\<open>(i >> j) & 1\<close> for \<^verbatim>\<open>j in range(n)\<close>, reversed; \<^verbatim>\<open>i in range(2 ** n)\<close>.\<close>

definition combination_of :: "nat \<Rightarrow> int \<Rightarrow> int list" where
  "combination_of n i = rev (map (\<lambda>j. and (drop_bit j i) 1) [0..<n])"

definition generate_truth_combinations :: "nat \<Rightarrow> int list list" where
  "generate_truth_combinations n = map (combination_of n) (map int [0..<2 ^ n])"

text \<open>
  \<^verbatim>\<open>{var: bool(val) for var, val in zip(variables, combination)}\<close> and
  \<^verbatim>\<open>{var: val for var, val in zip(variables, combination)}\<close>.
\<close>

definition dict_of :: "('k \<times> 'v) list \<Rightarrow> ('k \<times> 'v) list" where
  "dict_of kvs = foldl (\<lambda>d (k, v). dict_set d k v) [] kvs"

text \<open>
  A row of the table is a list (\<^verbatim>\<open>return_as_dict=False\<close>, the default) or a dictionary
  with the extra key \<^verbatim>\<open>'RESULT'\<close>.
\<close>

datatype row = RowList "int list" | RowDict "(string \<times> int) list"

definition make_row :: "bool \<Rightarrow> string list \<Rightarrow> int list \<Rightarrow> int \<Rightarrow> row" where
  "make_row return_as_dict variables combination result_val =
     (if return_as_dict then RowDict (dict_set (dict_of (zip variables combination)) ''RESULT'' result_val)
      else RowList (combination @ [result_val]))"

text \<open>
  The \<^verbatim>\<open>for combination in combinations\<close> loop; \<open>table\<close> is the list built so far. An
  exception of the evaluator ends the loop. Printing (\<^verbatim>\<open>print_table\<close>) has no effect on
  the table returned and is left out.
\<close>

fun truth_table_loop :: "ASTNode \<Rightarrow> string list \<Rightarrow> bool \<Rightarrow> row list \<Rightarrow> int list list \<Rightarrow> error + row list" where
  "truth_table_loop ast variables return_as_dict table [] = Inr table"
| "truth_table_loop ast variables return_as_dict table (combination # combinations) =
     (case evaluate_tree ast (dict_of (zip variables (map (\<lambda>val. PBool (val \<noteq> 0)) combination))) of
        Inl e \<Rightarrow> Inl e
      | Inr result \<Rightarrow>
          truth_table_loop ast variables return_as_dict
            (table @ [make_row return_as_dict variables combination (if truthy result then 1 else 0)])
            combinations)"

definition generate_truth_table :: "ASTNode \<Rightarrow> string list \<Rightarrow> bool \<Rightarrow> error + row list" where
  "generate_truth_table ast variables return_as_dict =
     truth_table_loop ast variables return_as_dict [] (generate_truth_combinations (length variables))"

text \<open>
  What \<^verbatim>\<open>main\<close> does with a line of input before it evaluates: the lexer, then the parser
  on its tokens.
\<close>

definition parse_expression :: "string \<Rightarrow> error + ASTNode" where
  "parse_expression expression =
     (case tokenize_expression expression of Inl e \<Rightarrow> Inl e | Inr tokens \<Rightarrow> build_ast tokens)"

section \<open>Predicates of the statements\<close>

text \<open>
  The definitions of this section are not code of the calculator: they say what the
  theorems below state about it.

  The character tests of the lexer are modelled on the ASCII range, so the statements about
  all input texts are made for texts of ASCII characters.
\<close>

definition ascii_text :: "string \<Rightarrow> bool" where
  "ascii_text s = list_all (\<lambda>c. (of_char c :: nat) < 128) s"

text \<open>A value that is a key of the operator table.\<close>

definition operator_key :: "pyval \<Rightarrow> bool" where
  "operator_key v = (case v of VBool b \<Rightarrow> False | VStr s \<Rightarrow> s \<in> set (map fst operators))"

text \<open>A value of a leaf: a boolean constant or a variable name of one letter.\<close>

definition leaf_value :: "pyval \<Rightarrow> bool" where
  "leaf_value v = (case v of VBool b \<Rightarrow> True | VStr s \<Rightarrow> (case s of [c] \<Rightarrow> py_isalpha c | _ \<Rightarrow> False))"

text \<open>
  The three shapes of a node: a leaf, a node with a left child only and the value
  \<^verbatim>\<open>NOT\<close>, a node with both children and an operator keyword as value; all the way down.
\<close>

fun node_shape :: "ASTNode \<Rightarrow> bool" where
  "node_shape (ASTNode v None None) = leaf_value v"
| "node_shape (ASTNode v (Some l) None) = (v = VStr ''NOT'' \<and> node_shape l)"
| "node_shape (ASTNode v None (Some r)) = False"
| "node_shape (ASTNode v (Some l) (Some r)) = (operator_key v \<and> node_shape l \<and> node_shape r)"

text \<open>Some node of the tree has a right child and no left child.\<close>

fun right_without_left :: "ASTNode \<Rightarrow> bool" where
  "right_without_left (ASTNode v None None) = False"
| "right_without_left (ASTNode v (Some l) None) = right_without_left l"
| "right_without_left (ASTNode v None (Some r)) = True"
| "right_without_left (ASTNode v (Some l) (Some r)) = (right_without_left l \<or> right_without_left r)"

text \<open>Every node with at least one child has a key of the operator table as value.\<close>

fun operators_known :: "ASTNode \<Rightarrow> bool" where
  "operators_known (ASTNode v None None) = True"
| "operators_known (ASTNode v (Some l) None) = (operator_key v \<and> operators_known l)"
| "operators_known (ASTNode v None (Some r)) = (operator_key v \<and> operators_known r)"
| "operators_known (ASTNode v (Some l) (Some r)) = (operator_key v \<and> operators_known l \<and> operators_known r)"

text \<open>
  The tokens the lexer can append: the two parentheses, an operand holding a constant or
  one letter, an operator of the table with its precedence.
\<close>

definition lexer_token :: "Token \<Rightarrow> bool" where
  "lexer_token t =
     (t = paren_token ''('' \<or> t = paren_token '')'' \<or>
      (token_type t = OPERAND \<and> leaf_value (tvalue t) \<and> t = operand_token (tvalue t)) \<or>
      t \<in> set (map (\<lambda>(op, p, func). operator_token op p) operators))"

text \<open>
  A chain \<^verbatim>\<open>x0 op1 x1 op2 x2 ...\<close> of operand tokens joined by operator tokens, the tree that
  groups it from the left, and what makes a link of a chain of precedence \<open>p\<close>: a
  left-associative operator token of that precedence followed by an operand token.
\<close>

definition chain_tokens :: "Token \<Rightarrow> (Token \<times> Token) list \<Rightarrow> Token list" where
  "chain_tokens x0 pairs = x0 # concat (map (\<lambda>(op, x). [op, x]) pairs)"

definition chain_tree :: "ASTNode \<Rightarrow> (Token \<times> Token) list \<Rightarrow> ASTNode" where
  "chain_tree node pairs =
     foldl (\<lambda>acc (op, x). ASTNode (tvalue op) (Some acc) (Some (ASTNode (tvalue x) None None))) node pairs"

definition chain_link :: "int \<Rightarrow> Token \<times> Token \<Rightarrow> bool" where
  "chain_link p = (\<lambda>(op, x). token_type op = OPERATOR \<and> precedence op = Some p \<and>
                     associativity op = Some ''left'' \<and> token_type x = OPERAND)"





text \<open>
  A well-formed tree, on which the evaluator is total: a leaf; a node with a left child only
  whose value is a key of a one-argument function of the table; a node with both children
  whose value is a key of a two-argument function.
\<close>

definition unary_key :: "pyval \<Rightarrow> bool" where
  "unary_key v = (case operators_get v of Inr (p, Unary g) \<Rightarrow> True | _ \<Rightarrow> False)"

definition binary_key :: "pyval \<Rightarrow> bool" where
  "binary_key v = (case operators_get v of Inr (p, Binary g) \<Rightarrow> True | _ \<Rightarrow> False)"

fun well_formed :: "ASTNode \<Rightarrow> bool" where
  "well_formed (ASTNode v None None) = True"
| "well_formed (ASTNode v (Some l) None) = (unary_key v \<and> well_formed l)"
| "well_formed (ASTNode v None (Some r)) = False"
| "well_formed (ASTNode v (Some l) (Some r)) = (binary_key v \<and> well_formed l \<and> well_formed r)"

text \<open>The number that a list of bits denotes, most significant bit first.\<close>

definition bin_value :: "int list \<Rightarrow> int" where
  "bin_value bits = foldl (\<lambda>a b. 2 * a + b) 0 bits"

section \<open>Precedence\<close>

text \<open>
  Claim C1 (binding tightness). The table numbers the operators NOT=1, AND=2, XOR=3, OR=4,
  IMP=5, IFF=6 and the claim reads a smaller number as binding tighter, so that
  \<^verbatim>\<open>A AND B OR C\<close> is \<^verbatim>\<open>(A AND B) OR C\<close>. The loop of \<^verbatim>\<open>parse_operator\<close> goes on while the
  next operator's number is at least the level asked for, and asks for a larger number on the
  right: the operator with the larger number ends up deeper in the tree. On
  \<^verbatim>\<open>A AND B OR C\<close> the parser returns \<^verbatim>\<open>A AND (B OR C)\<close>, and on \<^verbatim>\<open>A OR B AND C\<close> it
  returns \<^verbatim>\<open>(A OR B) AND C\<close>: OR binds tighter than AND.
\<close>

theorem and_or_parses_with_or_tighter:
  "parse_expression ''A AND B OR C'' =
     Inr (ASTNode (VStr ''AND'')
            (Some (ASTNode (VStr ''A'') None None))
            (Some (ASTNode (VStr ''OR'')
                     (Some (ASTNode (VStr ''B'') None None))
                     (Some (ASTNode (VStr ''C'') None None)))))
   \<and> parse_expression ''A OR B AND C'' =
     Inr (ASTNode (VStr ''AND'')
            (Some (ASTNode (VStr ''OR'')
                     (Some (ASTNode (VStr ''A'') None None))
                     (Some (ASTNode (VStr ''B'') None None))))
            (Some (ASTNode (VStr ''C'') None None)))"
  by code_simp

section \<open>Tokens left over\<close>

text \<open>
  Claim C2 (invalid input fails). The claim wants every structurally invalid token sequence
  rejected, tokens left after a complete expression included, and names the input
  \<^verbatim>\<open>A AN\<close>. The lexer turns \<^verbatim>\<open>A AN\<close> into the three variables A, A, N; \<^verbatim>\<open>parse_operator(0)\<close>
  reads the first, finds that the next token is no operator and returns; nobody looks at the
  two tokens left. The parser returns the tree of \<^verbatim>\<open>A\<close>, with no exception.
\<close>

theorem a_an_parses_to_a:
  "tokenize_expression ''A AN'' =
     Inr [operand_token (VStr ''A''), operand_token (VStr ''A''), operand_token (VStr ''N'')]
   \<and> parse_operator 0 [operand_token (VStr ''A''), operand_token (VStr ''A''), operand_token (VStr ''N'')] =
     Inr (ASTNode (VStr ''A'') None None, [operand_token (VStr ''A''), operand_token (VStr ''N'')])
   \<and> parse_expression ''A AN'' = Inr (ASTNode (VStr ''A'') None None)"
  by code_simp

section \<open>The table of an expression without variables\<close>

text \<open>
  Claim C4 as stated (no row for an empty variable list) fails:
  \<^verbatim>\<open>generate_truth_combinations(0)\<close> is \<^verbatim>\<open>[[]]\<close>, one empty combination, so the loop of
  \<^verbatim>\<open>generate_truth_table\<close> runs once. For the constant \<^verbatim>\<open>TRUE\<close> the table is \<^verbatim>\<open>[[1]]\<close>.
\<close>

theorem empty_variables_table_has_a_row:
  "generate_truth_combinations 0 = [[]]
   \<and> generate_truth_table (ASTNode (VBool True) None None) [] False = Inr [RowList [1]]
   \<and> generate_truth_table (ASTNode (VBool True) None None) [] False \<noteq> Inr []"
  by code_simp

text \<open>
  Claim C4, amended: with an empty variable list the table has exactly one row, which holds
  nothing but the result (1 or 0) of evaluating the tree under the empty assignment; if that
  evaluation raises, so does the enumerator.
\<close>

theorem empty_variables_table:
  "generate_truth_table ast [] return_as_dict =
     (case evaluate_tree ast [] of
        Inl e \<Rightarrow> Inl e
      | Inr result \<Rightarrow>
          Inr [if return_as_dict then RowDict [(''RESULT'', if truthy result then 1 else 0)]
               else RowList [if truthy result then 1 else 0]])"
  by (simp add: generate_truth_table_def generate_truth_combinations_def combination_of_def
                dict_of_def make_row_def split: sum.splits)

section \<open>Evaluation of constant expressions\<close>

text \<open>
  The functions of the table are the standard truth tables: on constant operands a node of
  each operator evaluates to 1 exactly when the connective holds.
\<close>

lemma operators_follow_truth_tables:
  "evaluate_tree (ASTNode (VStr ''NOT'') (Some (ASTNode (VBool a) None None)) None) vv
     = Inr (PInt (if \<not> a then 1 else 0))"
  "evaluate_tree (ASTNode (VStr ''AND'') (Some (ASTNode (VBool a) None None)) (Some (ASTNode (VBool b) None None))) vv
     = Inr (PInt (if a \<and> b then 1 else 0))"
  "evaluate_tree (ASTNode (VStr ''XOR'') (Some (ASTNode (VBool a) None None)) (Some (ASTNode (VBool b) None None))) vv
     = Inr (PInt (if a \<noteq> b then 1 else 0))"
  "evaluate_tree (ASTNode (VStr ''OR'') (Some (ASTNode (VBool a) None None)) (Some (ASTNode (VBool b) None None))) vv
     = Inr (PInt (if a \<or> b then 1 else 0))"
  "evaluate_tree (ASTNode (VStr ''IMP'') (Some (ASTNode (VBool a) None None)) (Some (ASTNode (VBool b) None None))) vv
     = Inr (PInt (if a \<longrightarrow> b then 1 else 0))"
  "evaluate_tree (ASTNode (VStr ''IFF'') (Some (ASTNode (VBool a) None None)) (Some (ASTNode (VBool b) None None))) vv
     = Inr (PInt (if a = b then 1 else 0))"
  by (simp_all add: operators_get_def operators_def call1_def call2_def py_int_def py_not_def
        py_and_def py_or_def py_eq_def py_ne_def truthy_def)

text \<open>
  Claim C5 (constant inputs evaluate to their truth value). The operator functions are the
  standard truth tables, but the tree they are applied to is not the one of standard logic:
  the parser lets the operator with the larger table number bind tighter (see C1), so
  \<^verbatim>\<open>TRUE OR TRUE AND FALSE\<close> is parsed as \<^verbatim>\<open>(TRUE OR TRUE) AND FALSE\<close> and evaluates to 0.
  With AND binding tighter than OR, as the specification's precedences say, the expression
  is \<^verbatim>\<open>TRUE OR (TRUE AND FALSE)\<close>, which the same evaluator takes to 1.
\<close>

theorem true_or_true_and_false_is_0:
  "parse_expression ''TRUE OR TRUE AND FALSE'' =
     Inr (ASTNode (VStr ''AND'')
            (Some (ASTNode (VStr ''OR'')
                     (Some (ASTNode (VBool True) None None))
                     (Some (ASTNode (VBool True) None None))))
            (Some (ASTNode (VBool False) None None)))
   \<and> evaluate_tree (ASTNode (VStr ''AND'')
            (Some (ASTNode (VStr ''OR'')
                     (Some (ASTNode (VBool True) None None))
                     (Some (ASTNode (VBool True) None None))))
            (Some (ASTNode (VBool False) None None))) [] = Inr (PInt 0)
   \<and> evaluate_tree (ASTNode (VStr ''OR'')
            (Some (ASTNode (VBool True) None None))
            (Some (ASTNode (VStr ''AND'')
                     (Some (ASTNode (VBool True) None None))
                     (Some (ASTNode (VBool False) None None))))) [] = Inr (PInt 1)"
  by code_simp

section \<open>Chains of one precedence\<close>

lemma parse_while_chain:
  "list_all (chain_link p) pairs \<Longrightarrow> l \<le> p \<Longrightarrow>
   parse_while l node (concat (map (\<lambda>(op, x). [op, x]) pairs)) = Inr (chain_tree node pairs, [])"
proof (induction pairs arbitrary: node)
  case Nil
  then show ?case by (simp add: chain_tree_def)
next
  case (Cons a pairs)
  obtain op x where a: "a = (op, x)" by (cases a)
  from Cons.prems a have op: "token_type op = OPERATOR" "precedence op = Some p"
    "associativity op = Some ''left''" "token_type x = OPERAND"
    and rest: "list_all (chain_link p) pairs"
    by (auto simp: chain_link_def)
  have stop: "parse_while (p + 1) (ASTNode (tvalue x) None None) (concat (map (\<lambda>(op, x). [op, x]) pairs))
        = Inr (ASTNode (tvalue x) None None, concat (map (\<lambda>(op, x). [op, x]) pairs))"
  proof (cases pairs)
    case Nil
    then show ?thesis by simp
  next
    case (Cons b bs)
    obtain op' x' where b: "b = (op', x')" by (cases b)
    with rest Cons have "precedence op' = Some p" "token_type op' = OPERATOR"
      by (auto simp: chain_link_def)
    with Cons b show ?thesis by simp
  qed
  have "parse_while l node (concat (map (\<lambda>(op, x). [op, x]) (a # pairs)))
      = parse_while l (ASTNode (tvalue op) (Some node) (Some (ASTNode (tvalue x) None None)))
          (concat (map (\<lambda>(op, x). [op, x]) pairs))"
    using a op Cons.prems(2) stop by simp
  also have "\<dots> = Inr (chain_tree (ASTNode (tvalue op) (Some node) (Some (ASTNode (tvalue x) None None))) pairs, [])"
    using Cons.IH[OF rest Cons.prems(2)] .
  finally show ?case by (simp add: chain_tree_def a)
qed

text \<open>
  Claim C6 (left-to-right grouping at equal precedence). For every chain of operands joined
  by left-associative operator tokens that all have the precedence \<open>p\<close>, the parser returns
  the tree grouped from the left: the right operand of each operator is parsed at the level
  \<open>p + 1\<close>, which the next operator of the chain does not reach, so the loop of the caller
  takes it with the tree built so far as its left child.
\<close>

theorem equal_precedence_chain_groups_left:
  assumes "token_type x0 = OPERAND" and "list_all (chain_link p) pairs" and "0 \<le> p"
  shows "build_ast (chain_tokens x0 pairs) = Inr (chain_tree (ASTNode (tvalue x0) None None) pairs)"
  using assms parse_while_chain[of p pairs 0 "ASTNode (tvalue x0) None None"]
  by (simp add: build_ast_def chain_tokens_def)

text \<open>The chain \<^verbatim>\<open>A IMP B IMP C\<close> is parsed as \<^verbatim>\<open>(A IMP B) IMP C\<close>.\<close>

theorem equal_precedence_chain_groups_left_witness:
  "token_type (operand_token (VStr ''A'')) = OPERAND
   \<and> list_all (chain_link 5)
        [(operator_token ''IMP'' 5, operand_token (VStr ''B'')),
         (operator_token ''IMP'' 5, operand_token (VStr ''C''))]
   \<and> (0::int) \<le> 5
   \<and> tokenize_expression ''A IMP B IMP C'' =
        Inr (chain_tokens (operand_token (VStr ''A''))
              [(operator_token ''IMP'' 5, operand_token (VStr ''B'')),
               (operator_token ''IMP'' 5, operand_token (VStr ''C''))])
   \<and> parse_expression ''A IMP B IMP C'' =
        Inr (ASTNode (VStr ''IMP'')
               (Some (ASTNode (VStr ''IMP'')
                        (Some (ASTNode (VStr ''A'') None None))
                        (Some (ASTNode (VStr ''B'') None None))))
               (Some (ASTNode (VStr ''C'') None None)))"
proof -
  let ?pairs = "[(operator_token ''IMP'' 5, operand_token (VStr ''B'')),
                 (operator_token ''IMP'' 5, operand_token (VStr ''C''))]"
  have h1: "token_type (operand_token (VStr ''A'')) = OPERAND"
    by (simp add: operand_token_def)
  have h2: "list_all (chain_link 5) ?pairs"
    by (simp add: chain_link_def operand_token_def operator_token_def)
  have h3: "(0::int) \<le> 5" by simp
  have tok: "tokenize_expression ''A IMP B IMP C'' = Inr (chain_tokens (operand_token (VStr ''A'')) ?pairs)"
    by code_simp
  from equal_precedence_chain_groups_left[OF h1 h2 h3] tok
  have "parse_expression ''A IMP B IMP C'' =
          Inr (chain_tree (ASTNode (tvalue (operand_token (VStr ''A''))) None None) ?pairs)"
    by (simp add: parse_expression_def)
  then show ?thesis using h1 h2 tok
    by (simp add: chain_tree_def operand_token_def operator_token_def)
qed

section \<open>The shape of the parser's trees\<close>

lemma lexer_token_simps:
  "lexer_token (paren_token ''('')" "lexer_token (paren_token '')'')"
  "lexer_token (operand_token (VBool b))"
  "py_isalpha c \<Longrightarrow> lexer_token (operand_token (VStr [c]))"
  by (simp_all add: lexer_token_def operand_token_def leaf_value_def)

lemma match_operator_token:
  "match_operator s = Some (op, p, func) \<Longrightarrow> lexer_token (operator_token op p)"
  by (auto simp: match_operator_def find_Some_iff lexer_token_def in_set_conv_nth intro!: image_eqI[where x="(op,p,func)"]) 

lemma tokenize_loop_tokens:
  "list_all lexer_token tokens \<Longrightarrow> tokenize_loop tokens s = Inr ts \<Longrightarrow> list_all lexer_token ts"
proof (induction tokens s rule: tokenize_loop.induct)
  case (1 tokens)
  then show ?case by simp
next
  case (2 tokens char rest)
  note prems = "2.prems"
  show ?case
  proof (cases "py_isspace char")
    case True
    with 2 show ?thesis by simp
  next
    case sp: False
    show ?thesis
    proof (cases "char = CHR ''(''")
      case True
      with sp prems "2.IH"(2) show ?thesis by (simp add: lexer_token_simps)
    next
      case lp: False
      show ?thesis
      proof (cases "char = CHR '')''")
        case True
        with sp lp prems "2.IH"(3) show ?thesis by (simp add: lexer_token_simps)
      next
        case rp: False
        show ?thesis
        proof (cases "starts_with ''TRUE'' (char # rest)")
          case True
          with sp lp rp prems "2.IH"(4) show ?thesis by (simp add: lexer_token_simps)
        next
          case tr: False
          show ?thesis
          proof (cases "starts_with ''FALSE'' (char # rest)")
            case True
            with sp lp rp tr prems "2.IH"(5) show ?thesis by (simp add: lexer_token_simps)
          next
            case fa: False
            show ?thesis
            proof (cases "match_operator (char # rest)")
              case None
              with sp lp rp tr fa prems "2.IH"(6) show ?thesis
                by (auto simp: lexer_token_simps split: if_splits)
            next
              case (Some m)
              obtain op p func where m: "m = (op, p, func)" by (cases m)
              have step: "tokenize_loop tokens (char # rest) =
                  tokenize_loop (tokens @ [operator_token op p]) (drop (length op) (char # rest))"
                using Some m sp lp rp tr fa by simp
              have toks: "list_all lexer_token (tokens @ [operator_token op p])"
                using prems(1) match_operator_token[of "char # rest" op p func] Some m by simp
              have res: "tokenize_loop (tokens @ [operator_token op p]) (drop (length op) (char # rest)) = Inr ts"
                using prems(2) unfolding step .
              show ?thesis
                using "2.IH"(7)[OF sp lp rp tr fa Some m[symmetric] refl toks res] .
            qed
          qed
        qed
      qed
    qed
  qed
qed

lemma tokenize_expression_tokens:
  "tokenize_expression s = Inr ts \<Longrightarrow> list_all lexer_token ts"
  using tokenize_loop_tokens[of "[]" "py_upper s" ts] by (simp add: tokenize_expression_def)

lemma lexer_token_operand:
  "lexer_token t \<Longrightarrow> token_type t = OPERAND \<Longrightarrow> leaf_value (tvalue t)"
  by (auto simp: lexer_token_def paren_token_def operator_token_def)

lemma lexer_token_operator:
  "lexer_token t \<Longrightarrow> token_type t = OPERATOR \<Longrightarrow> operator_key (tvalue t)"
  by (auto simp: lexer_token_def paren_token_def operator_token_def operator_key_def operators_def)

lemma parser_shape:
  "list_all lexer_token ts \<Longrightarrow> parse_primary ts = Inr (n, r) \<Longrightarrow> node_shape n \<and> list_all lexer_token r"
  "list_all lexer_token ts \<Longrightarrow> parse_operator l ts = Inr (n, r) \<Longrightarrow> node_shape n \<and> list_all lexer_token r"
  "list_all lexer_token ts \<Longrightarrow> node_shape nd \<Longrightarrow> parse_while l nd ts = Inr (n, r) \<Longrightarrow>
     node_shape n \<and> list_all lexer_token r"
proof (induction ts and l ts and l nd ts arbitrary: n r and n r and n r
       rule: parse_primary_parse_operator_parse_while.induct)
  case 1
  then show ?case by simp
next
  case (2 token tokens)
  from "2.prems" have tk: "lexer_token token" and tks: "list_all lexer_token tokens" by simp_all
  show ?case
  proof (cases "token_type token = OPERAND")
    case True
    with "2.prems" lexer_token_operand[OF tk] show ?thesis by auto
  next
    case no: False
    show ?thesis
    proof (cases "token_type token = PARENTHESIS \<and> tvalue token = VStr ''(''")
      case True
      with no "2.prems"(2) obtain n' r' where inner: "parse_operator 0 tokens = Inr (n', r')"
        by (auto split: sum.splits)
      from "2.IH"(1)[OF no True tks inner] have ih: "node_shape n'" "list_all lexer_token r'" by simp_all
      from no True inner "2.prems"(2) ih show ?thesis
        by (auto split: list.splits if_splits)
    next
      case np: False
      show ?thesis
      proof (cases "token_type token = OPERATOR \<and> tvalue token = VStr ''NOT''")
        case True
        with no np "2.prems"(2) obtain n' r' where inner: "parse_primary tokens = Inr (n', r')"
          by (auto split: sum.splits)
        from "2.IH"(2)[OF no np True tks inner] have ih: "node_shape n'" "list_all lexer_token r'" by simp_all
        from no np True inner "2.prems"(2) ih show ?thesis by auto
      next
        case False
        with no np "2.prems"(2) show ?thesis by (auto split: if_splits)
      qed
    qed
  qed
next
  case (3 precedence_level tokens)
  from "3.prems"(2) obtain n' r' where p: "parse_primary tokens = Inr (n', r')"
    and w: "parse_while precedence_level n' r' = Inr (n, r)"
    by (auto split: sum.splits)
  from "3.IH"(1)[OF "3.prems"(1) p] have "node_shape n'" "list_all lexer_token r'" by simp_all
  with "3.IH"(2)[OF p refl _ _ w] show ?case by simp
next
  case (4 precedence_level node)
  then show ?case by simp
next
  case (5 precedence_level node token tokens)
  from "5.prems" have tk: "lexer_token token" and tks: "list_all lexer_token tokens" by simp_all
  show ?case
  proof (cases "token_type token = OPERATOR")
    case False
    with "5.prems" show ?thesis by auto
  next
    case op: True
    from "5.prems"(3) op obtain p where p: "precedence token = Some p"
      by (auto split: option.splits)
    show ?thesis
    proof (cases "precedence_level \<le> p")
      case False
      with op p "5.prems" show ?thesis by auto
    next
      case ge: True
      let ?next = "if associativity token = Some ''left'' then p + 1 else p"
      from op p ge "5.prems"(3) obtain rhs r' where inner: "parse_operator ?next tokens = Inr (rhs, r')"
        and w: "parse_while precedence_level (ASTNode (tvalue token) (Some node) (Some rhs)) r' = Inr (n, r)"
        by (auto split: sum.splits)
      from "5.IH"(1)[OF op p ge tks inner] have ih: "node_shape rhs" "list_all lexer_token r'" by simp_all
      have "node_shape (ASTNode (tvalue token) (Some node) (Some rhs))"
        using ih "5.prems"(2) lexer_token_operator[OF tk op] by simp
      from "5.IH"(2)[OF op p ge inner refl ih(2) this w] show ?thesis .
    qed
  qed
qed

lemma build_ast_shape:
  "list_all lexer_token ts \<Longrightarrow> build_ast ts = Inr t \<Longrightarrow> node_shape t"
  using parser_shape(2)[of ts 0] by (auto simp: build_ast_def split: sum.splits)


lemma node_shape_operators_known: "node_shape t \<Longrightarrow> operators_known t"
  by (induction t rule: node_shape.induct) (auto simp: operator_key_def operators_def)

lemma node_shape_left_first: "node_shape t \<Longrightarrow> \<not> right_without_left t"
  by (induction t rule: node_shape.induct) auto

lemma operator_key_get: "operator_key v \<Longrightarrow> \<exists>p func. operators_get v = Inr (p, func)"
  by (cases v) (auto simp: operator_key_def operators_get_def operators_def)

lemma call1_no_KeyError: "call1 func a \<noteq> Inl (KeyError k)"
  by (cases func) (simp_all add: call1_def)

lemma call2_no_KeyError: "call2 func a b \<noteq> Inl (KeyError k)"
  by (cases func) (simp_all add: call2_def)

lemma evaluate_tree_no_KeyError:
  "operators_known t \<Longrightarrow> evaluate_tree t variable_values \<noteq> Inl (KeyError k)"
proof (induction t variable_values rule: evaluate_tree.induct)
  case (1 v variable_values)
  then show ?case by (simp split: pyval.splits option.splits)
next
  case (2 v l variable_values)
  from "2.prems" have "operator_key v" by simp
  then obtain p func where "operators_get v = Inr (p, func)"
    using operator_key_get by blast
  with 2 show ?case by (auto split: sum.splits simp: call1_no_KeyError)
next
  case (3 v r variable_values)
  then show ?case by simp
next
  case (4 v l r variable_values)
  from "4.prems" have "operator_key v" by simp
  then obtain p func where "operators_get v = Inr (p, func)"
    using operator_key_get by blast
  with 4 show ?case by (auto split: sum.splits simp: call2_no_KeyError)
qed

lemma evaluate_tree_no_AttributeError:
  "\<not> right_without_left t \<Longrightarrow> evaluate_tree t variable_values \<noteq> Inl AttributeError"
proof (induction t variable_values rule: evaluate_tree.induct)
  case (1 v variable_values)
  then show ?case by (simp split: pyval.splits option.splits)
next
  case (2 v l variable_values)
  then show ?case
    by (auto split: sum.splits pyval.splits option.splits opfun.splits simp: call1_def operators_get_def)
next
  case (3 v r variable_values)
  then show ?case by simp
next
  case (4 v l r variable_values)
  then show ?case
    by (auto split: sum.splits pyval.splits option.splits opfun.splits simp: call2_def operators_get_def)
qed

text \<open>
  Claim C10 (the three shapes). Every node of a tree that the parser returns for the tokens
  of the lexer is a leaf holding a boolean constant or a variable name of one letter, or
  has a left child only and the value \<^verbatim>\<open>NOT\<close>, or has both children and an operator keyword
  as value. No node has a right child without a left child, so the evaluator never reaches
  a child that is \<^verbatim>\<open>None\<close>.
\<close>

theorem parser_output_shape:
  assumes "ascii_text expression"
    and "tokenize_expression expression = Inr tokens"
    and "build_ast tokens = Inr ast"
  shows "node_shape ast \<and> \<not> right_without_left ast
         \<and> (\<forall>variable_values. evaluate_tree ast variable_values \<noteq> Inl AttributeError)"
  using assms build_ast_shape[OF tokenize_expression_tokens] node_shape_left_first
    evaluate_tree_no_AttributeError by blast

text \<open>The tree of \<^verbatim>\<open>not (a xor TRUE) imp b\<close> shows the three shapes.\<close>

theorem parser_output_shape_witness:
  "ascii_text ''not (a xor TRUE) imp b''
   \<and> tokenize_expression ''not (a xor TRUE) imp b'' =
       Inr [operator_token ''NOT'' 1, paren_token ''('', operand_token (VStr ''A''),
            operator_token ''XOR'' 3, operand_token (VBool True), paren_token '')'',
            operator_token ''IMP'' 5, operand_token (VStr ''B'')]
   \<and> build_ast [operator_token ''NOT'' 1, paren_token ''('', operand_token (VStr ''A''),
            operator_token ''XOR'' 3, operand_token (VBool True), paren_token '')'',
            operator_token ''IMP'' 5, operand_token (VStr ''B'')] =
       Inr (ASTNode (VStr ''IMP'')
              (Some (ASTNode (VStr ''NOT'')
                 (Some (ASTNode (VStr ''XOR'')
                    (Some (ASTNode (VStr ''A'') None None))
                    (Some (ASTNode (VBool True) None None))))
                 None))
              (Some (ASTNode (VStr ''B'') None None)))
   \<and> node_shape (ASTNode (VStr ''IMP'')
              (Some (ASTNode (VStr ''NOT'')
                 (Some (ASTNode (VStr ''XOR'')
                    (Some (ASTNode (VStr ''A'') None None))
                    (Some (ASTNode (VBool True) None None))))
                 None))
              (Some (ASTNode (VStr ''B'') None None)))"
proof -
  have h1: "ascii_text ''not (a xor TRUE) imp b''" by code_simp
  have h2: "tokenize_expression ''not (a xor TRUE) imp b'' =
       Inr [operator_token ''NOT'' 1, paren_token ''('', operand_token (VStr ''A''),
            operator_token ''XOR'' 3, operand_token (VBool True), paren_token '')'',
            operator_token ''IMP'' 5, operand_token (VStr ''B'')]" by code_simp
  have h3: "build_ast [operator_token ''NOT'' 1, paren_token ''('', operand_token (VStr ''A''),
            operator_token ''XOR'' 3, operand_token (VBool True), paren_token '')'',
            operator_token ''IMP'' 5, operand_token (VStr ''B'')] =
       Inr (ASTNode (VStr ''IMP'')
              (Some (ASTNode (VStr ''NOT'')
                 (Some (ASTNode (VStr ''XOR'')
                    (Some (ASTNode (VStr ''A'') None None))
                    (Some (ASTNode (VBool True) None None))))
                 None))
              (Some (ASTNode (VStr ''B'') None None)))" by code_simp
  from parser_output_shape[OF h1 h2 h3] h1 h2 h3 show ?thesis by blast
qed

text \<open>
  Claim C9 (no unknown operator). In a tree that the parser returns for the tokens of the
  lexer, every node with at least one child has a key of the operator table as value, and
  evaluating the tree under any assignment never ends in the \<^verbatim>\<open>KeyError\<close> of the table
  lookup.
\<close>

theorem parser_output_never_KeyError:
  assumes "ascii_text expression"
    and "tokenize_expression expression = Inr tokens"
    and "build_ast tokens = Inr ast"
  shows "operators_known ast
         \<and> (\<forall>variable_values key. evaluate_tree ast variable_values \<noteq> Inl (KeyError key))"
  using assms build_ast_shape[OF tokenize_expression_tokens] node_shape_operators_known
    evaluate_tree_no_KeyError by blast

text \<open>
  The tree of \<^verbatim>\<open>a not b\<close>, whose evaluation does raise (a \<^verbatim>\<open>TypeError\<close>), but not for
  a missing key.
\<close>

theorem parser_output_never_KeyError_witness:
  "ascii_text ''a not b''
   \<and> tokenize_expression ''a not b'' =
       Inr [operand_token (VStr ''A''), operator_token ''NOT'' 1, operand_token (VStr ''B'')]
   \<and> build_ast [operand_token (VStr ''A''), operator_token ''NOT'' 1, operand_token (VStr ''B'')] =
       Inr (ASTNode (VStr ''NOT'') (Some (ASTNode (VStr ''A'') None None))
              (Some (ASTNode (VStr ''B'') None None)))
   \<and> operators_known (ASTNode (VStr ''NOT'') (Some (ASTNode (VStr ''A'') None None))
              (Some (ASTNode (VStr ''B'') None None)))
   \<and> (\<forall>variable_values key.
         evaluate_tree (ASTNode (VStr ''NOT'') (Some (ASTNode (VStr ''A'') None None))
              (Some (ASTNode (VStr ''B'') None None))) variable_values \<noteq> Inl (KeyError key))"
proof -
  have h1: "ascii_text ''a not b''" by code_simp
  have h2: "tokenize_expression ''a not b'' =
       Inr [operand_token (VStr ''A''), operator_token ''NOT'' 1, operand_token (VStr ''B'')]"
    by code_simp
  have h3: "build_ast [operand_token (VStr ''A''), operator_token ''NOT'' 1, operand_token (VStr ''B'')] =
       Inr (ASTNode (VStr ''NOT'') (Some (ASTNode (VStr ''A'') None None))
              (Some (ASTNode (VStr ''B'') None None)))" by code_simp
  from parser_output_never_KeyError[OF h1 h2 h3] h1 h2 h3 show ?thesis by blast
qed

section \<open>Unterminated groups\<close>

lemma paren_token_fields [simp]:
  "token_type (paren_token s) = PARENTHESIS" "tvalue (paren_token s) = VStr s"
  by (simp_all add: paren_token_def)

lemma parse_while_close [simp]: "parse_while l nd [paren_token '')''] = Inr (nd, [paren_token '')''])"
  by simp

lemma parse_primary_close [simp]: "isl (parse_primary [paren_token '')''])"
  by simp




text \<open>An instance: two groups left open.\<close>

lemma unterminated_groups_example:
  "parse_expression ''(A OR (B AND C'' = parse_expression ''(A OR (B AND C))''
   \<and> parse_expression ''(A OR (B AND C'' =
       Inr (ASTNode (VStr ''OR'')
              (Some (ASTNode (VStr ''A'') None None))
              (Some (ASTNode (VStr ''AND'')
                       (Some (ASTNode (VStr ''B'') None None))
                       (Some (ASTNode (VStr ''C'') None None)))))"
  by code_simp

section \<open>Runs of letters\<close>











section \<open>The truth table\<close>

lemma well_formed_evaluates:
  "well_formed t \<Longrightarrow> \<exists>result. evaluate_tree t variable_values = Inr result"
proof (induction t variable_values rule: evaluate_tree.induct)
  case (1 v variable_values)
  then show ?case by (simp split: pyval.splits option.splits)
next
  case (2 v l variable_values)
  then show ?case
    by (auto simp: unary_key_def call1_def split: sum.splits opfun.splits prod.splits)
next
  case (3 v r variable_values)
  then show ?case by simp
next
  case (4 v l r variable_values)
  then show ?case
    by (auto simp: binary_key_def call2_def split: sum.splits opfun.splits prod.splits)
qed

lemma combination_of_Suc:
  "combination_of (Suc n) i = (and (drop_bit n i) 1) # combination_of n i"
  by (simp add: combination_of_def)

lemma length_combination_of [simp]: "length (combination_of n i) = n"
  by (simp add: combination_of_def)

lemma set_combination_of: "set (combination_of n i) \<subseteq> {0, 1}"
  by (auto simp: combination_of_def and_one_eq)

lemma foldl_bin: "foldl (\<lambda>a b. 2 * a + b) a bits = a * 2 ^ length bits + foldl (\<lambda>a b. 2 * a + b) 0 (bits :: int list)"
proof (induction bits arbitrary: a)
  case Nil
  then show ?case by simp
next
  case (Cons b bits)
  show ?case
    using Cons[of "2 * a + b"] Cons[of b] by (simp add: algebra_simps)
qed

lemma bin_value_combination_of: "0 \<le> i \<Longrightarrow> bin_value (combination_of n i) = i mod 2 ^ n"
proof (induction n)
  case 0
  then show ?case by (simp add: bin_value_def combination_of_def)
next
  case (Suc n)
  have "bin_value (combination_of (Suc n) i) =
        (i div 2 ^ n mod 2) * 2 ^ n + bin_value (combination_of n i)"
    using foldl_bin[of "and (drop_bit n i) 1" "combination_of n i"]
    by (simp add: bin_value_def combination_of_Suc and_one_eq drop_bit_eq_div)
  also have "\<dots> = (i div 2 ^ n mod 2) * 2 ^ n + i mod 2 ^ n"
    using Suc by simp
  also have "\<dots> = i mod 2 ^ Suc n"
    using zmod_zmult2_eq[of 2 i "2 ^ n"] by (simp add: mult.commute)
  finally show ?case .
qed

lemma bin_value_row: "i < 2 ^ n \<Longrightarrow> bin_value (combination_of n (int i)) = int i"
proof -
  assume "i < 2 ^ n"
  then have "int i < 2 ^ n" by (metis of_nat_less_iff of_nat_numeral of_nat_power)
  then show ?thesis using bin_value_combination_of[of "int i" n] by simp
qed

lemma distinct_combinations: "distinct (generate_truth_combinations n)"
proof -
  have "inj_on (\<lambda>i. combination_of n (int i)) {0..<2 ^ n}"
  proof (rule inj_onI)
    fix x y assume x: "x \<in> {0..<2 ^ n}" and y: "y \<in> {0..<2 ^ n}"
      and eq: "combination_of n (int x) = combination_of n (int y)"
    have bx: "bin_value (combination_of n (int x)) = int x"
      using x by (simp add: bin_value_row)
    have "bin_value (combination_of n (int y)) = int y"
      using y by (simp add: bin_value_row)
    with bx have "int x = int y" unfolding eq by simp
    then show "x = y" by simp
  qed
  then show ?thesis
    by (simp add: generate_truth_combinations_def distinct_map comp_def)
qed

lemma set_combinations:
  "set (generate_truth_combinations n) = {bits. length bits = n \<and> set bits \<subseteq> {0, 1}}"
proof (rule card_subset_eq)
  show "finite {bits :: int list. length bits = n \<and> set bits \<subseteq> {0, 1}}"
    using finite_lists_length_eq[of "{0, 1::int}" n] by (simp add: conj_commute)
  show "set (generate_truth_combinations n) \<subseteq> {bits. length bits = n \<and> set bits \<subseteq> {0, 1}}"
    using set_combination_of by (auto simp: generate_truth_combinations_def)
  have "card (set (generate_truth_combinations n)) = 2 ^ n"
    using distinct_card[OF distinct_combinations, of n]
    by (simp add: generate_truth_combinations_def)
  moreover have "card {bits :: int list. length bits = n \<and> set bits \<subseteq> {0, 1}} = 2 ^ n"
  proof -
    have "{bits :: int list. length bits = n \<and> set bits \<subseteq> {0, 1}} =
          {bits. set bits \<subseteq> {0, 1} \<and> length bits = n}" by auto
    moreover have "card {bits :: int list. set bits \<subseteq> {0, 1} \<and> length bits = n} = card {0, 1::int} ^ n"
      by (rule card_lists_length_eq) simp
    moreover have "card {0, 1::int} = 2" by simp
    ultimately show ?thesis by simp
  qed
  ultimately show "card (set (generate_truth_combinations n)) =
      card {bits :: int list. length bits = n \<and> set bits \<subseteq> {0, 1}}" by simp
qed


lemma dict_set_fresh: "k \<notin> fst ` set d \<Longrightarrow> dict_set d k v = d @ [(k, v)]"
  by (induction d) auto

lemma foldl_dict_set_distinct:
  "distinct (map fst (d @ kvs)) \<Longrightarrow> foldl (\<lambda>d (k, v). dict_set d k v) d kvs = d @ kvs"
proof (induction kvs arbitrary: d)
  case Nil
  then show ?case by simp
next
  case (Cons kv kvs)
  obtain k v where kv: "kv = (k, v)" by (cases kv)
  from Cons.prems kv have fresh: "k \<notin> fst ` set d" by auto
  from Cons.prems kv have "distinct (map fst ((d @ [(k, v)]) @ kvs))" by simp
  from Cons.IH[OF this] show ?case by (simp add: kv dict_set_fresh[OF fresh])
qed

lemma dict_of_zip: "distinct ks \<Longrightarrow> dict_of (zip ks vs) = zip ks vs"
  using foldl_dict_set_distinct[of "[]" "zip ks vs"]
  by (simp add: dict_of_def map_fst_zip_take)

lemma truth_table_loop_rows:
  assumes "well_formed ast"
  shows "\<exists>results. length results = length combinations
       \<and> (\<forall>i < length combinations.
             evaluate_tree ast (dict_of (zip variables (map (\<lambda>val. PBool (val \<noteq> 0)) (combinations ! i))))
               = Inr (results ! i))
       \<and> truth_table_loop ast variables return_as_dict table combinations =
           Inr (table @ map (\<lambda>(combination, result).
                  make_row return_as_dict variables combination (if truthy result then 1 else 0))
                  (zip combinations results))"
proof (induction combinations arbitrary: table)
  case Nil
  show ?case by simp
next
  case (Cons c cs)
  let ?row = "\<lambda>(combination, result).
      make_row return_as_dict variables combination (if truthy result then 1 else 0)"
  obtain r where r: "evaluate_tree ast (dict_of (zip variables (map (\<lambda>val. PBool (val \<noteq> 0)) c))) = Inr r"
    using well_formed_evaluates[OF assms] by blast
  obtain rs where rs: "length rs = length cs"
    "\<forall>i < length cs. evaluate_tree ast (dict_of (zip variables (map (\<lambda>val. PBool (val \<noteq> 0)) (cs ! i)))) = Inr (rs ! i)"
    "truth_table_loop ast variables return_as_dict (table @ [?row (c, r)]) cs =
       Inr ((table @ [?row (c, r)]) @ map ?row (zip cs rs))"
    using Cons[of "table @ [?row (c, r)]"] by blast
  have a: "length (r # rs) = length (c # cs)" using rs(1) by simp
  have b: "\<forall>i < length (c # cs).
      evaluate_tree ast (dict_of (zip variables (map (\<lambda>val. PBool (val \<noteq> 0)) ((c # cs) ! i)))) = Inr ((r # rs) ! i)"
    using r rs(2) by (auto simp: nth_Cons')
  have c: "truth_table_loop ast variables return_as_dict table (c # cs) =
      Inr (table @ map ?row (zip (c # cs) (r # rs)))"
    using r rs(3) by simp
  from a b c show ?case by blast
qed

text \<open>
  Claim C3 (the table enumerates the hypercube). For a well-formed tree and \<open>n\<close> distinct
  variables the enumerator returns a table of exactly \<open>2 ^ n\<close> rows. Row \<open>i\<close> holds the
  combination number \<open>i\<close>, which has \<open>n\<close> bits, each 0 or 1, and denotes \<open>i\<close> read with the
  first variable as the most significant bit; after it comes the result, 1 or 0, of
  evaluating the tree with each variable bound to true exactly where its bit is 1. The
  combinations are pairwise distinct and are all the lists of \<open>n\<close> bits. In dictionary mode
  the row pairs each variable with its bit and ends with the entry \<^verbatim>\<open>RESULT\<close> (no variable
  may then have that name).
\<close>

theorem truth_table_enumerates_hypercube:
  assumes "distinct variables"
    and "well_formed ast"
    and "return_as_dict \<Longrightarrow> ''RESULT'' \<notin> set variables"
  shows "\<exists>table.
      generate_truth_table ast variables return_as_dict = Inr table
    \<and> length table = 2 ^ length variables
    \<and> (\<forall>i < 2 ^ length variables. \<exists>result.
          evaluate_tree ast
            (zip variables (map (\<lambda>val. PBool (val = 1)) (combination_of (length variables) (int i))))
            = Inr result
        \<and> table ! i =
            (if return_as_dict
             then RowDict (zip variables (combination_of (length variables) (int i))
                           @ [(''RESULT'', if truthy result then 1 else 0)])
             else RowList (combination_of (length variables) (int i)
                           @ [if truthy result then 1 else 0])))
    \<and> (\<forall>i < 2 ^ length variables.
          length (combination_of (length variables) (int i)) = length variables
        \<and> set (combination_of (length variables) (int i)) \<subseteq> {0, 1}
        \<and> bin_value (combination_of (length variables) (int i)) = int i)
    \<and> distinct (map (\<lambda>i. combination_of (length variables) (int i)) [0..<2 ^ length variables])
    \<and> set (map (\<lambda>i. combination_of (length variables) (int i)) [0..<2 ^ length variables])
        = {bits. length bits = length variables \<and> set bits \<subseteq> {0, 1}}"
proof -
  let ?n = "length variables"
  let ?cs = "generate_truth_combinations ?n"
  let ?row = "\<lambda>(combination, result).
      make_row return_as_dict variables combination (if truthy result then 1 else 0)"
  have cs_map: "?cs = map (\<lambda>i. combination_of ?n (int i)) [0..<2 ^ ?n]"
    by (simp add: generate_truth_combinations_def comp_def)
  have len_cs: "length ?cs = 2 ^ ?n" by (simp add: generate_truth_combinations_def)
  have nth_cs: "\<And>i. i < 2 ^ ?n \<Longrightarrow> ?cs ! i = combination_of ?n (int i)"
    by (simp add: generate_truth_combinations_def)
  obtain rs where rs: "length rs = length ?cs"
    "\<forall>i < length ?cs. evaluate_tree ast (dict_of (zip variables (map (\<lambda>val. PBool (val \<noteq> 0)) (?cs ! i)))) = Inr (rs ! i)"
    "truth_table_loop ast variables return_as_dict [] ?cs = Inr ([] @ map ?row (zip ?cs rs))"
    using truth_table_loop_rows[OF assms(2), of ?cs variables return_as_dict "[]"] by blast
  let ?table = "map ?row (zip ?cs rs)"
  have t1: "generate_truth_table ast variables return_as_dict = Inr ?table"
    using rs(3) by (simp add: generate_truth_table_def)
  have t2: "length ?table = 2 ^ ?n" using rs(1) len_cs by simp
  have asg: "\<And>i. dict_of (zip variables (map (\<lambda>val. PBool (val \<noteq> 0)) (combination_of ?n i))) =
                 zip variables (map (\<lambda>val. PBool (val = 1)) (combination_of ?n i))"
  proof -
    fix i
    have m: "map (\<lambda>val. PBool (val \<noteq> 0)) (combination_of ?n i) = map (\<lambda>val. PBool (val = 1)) (combination_of ?n i)"
    proof (rule map_cong[OF refl])
      fix x assume "x \<in> set (combination_of ?n i)"
      then have "x = 0 \<or> x = 1" using set_combination_of[of ?n i] by auto
      then show "PBool (x \<noteq> 0) = PBool (x = 1)" by auto
    qed
    show "dict_of (zip variables (map (\<lambda>val. PBool (val \<noteq> 0)) (combination_of ?n i))) =
                 zip variables (map (\<lambda>val. PBool (val = 1)) (combination_of ?n i))"
      unfolding m by (rule dict_of_zip[OF assms(1)])
  qed
  have t3: "\<forall>i < 2 ^ ?n. \<exists>result.
          evaluate_tree ast (zip variables (map (\<lambda>val. PBool (val = 1)) (combination_of ?n (int i)))) = Inr result
        \<and> ?table ! i =
            (if return_as_dict
             then RowDict (zip variables (combination_of ?n (int i)) @ [(''RESULT'', if truthy result then 1 else 0)])
             else RowList (combination_of ?n (int i) @ [if truthy result then 1 else 0]))"
  proof (intro allI impI)
    fix i :: nat assume i: "i < 2 ^ ?n"
    then have il: "i < length ?cs" using len_cs by simp
    from rs(2) il have "evaluate_tree ast (dict_of (zip variables (map (\<lambda>val. PBool (val \<noteq> 0)) (?cs ! i)))) = Inr (rs ! i)"
      by blast
    then have ev: "evaluate_tree ast (zip variables (map (\<lambda>val. PBool (val = 1)) (combination_of ?n (int i)))) = Inr (rs ! i)"
      unfolding nth_cs[OF i] asg[of "int i"] .
    have "?table ! i = make_row return_as_dict variables (combination_of ?n (int i)) (if truthy (rs ! i) then 1 else 0)"
      using il rs(1) nth_cs[OF i] by simp
    moreover have "return_as_dict \<Longrightarrow>
        dict_set (dict_of (zip variables (combination_of ?n (int i)))) ''RESULT'' (if truthy (rs ! i) then 1 else 0)
        = zip variables (combination_of ?n (int i)) @ [(''RESULT'', if truthy (rs ! i) then 1 else 0)]"
    proof -
      assume "return_as_dict"
      then have "''RESULT'' \<notin> set variables" by (rule assms(3))
      then have "''RESULT'' \<notin> fst ` set (zip variables (combination_of ?n (int i)))"
        by (auto dest: set_zip_leftD)
      then show ?thesis by (simp add: dict_of_zip[OF assms(1)] dict_set_fresh)
    qed
    ultimately have "?table ! i =
            (if return_as_dict
             then RowDict (zip variables (combination_of ?n (int i)) @ [(''RESULT'', if truthy (rs ! i) then 1 else 0)])
             else RowList (combination_of ?n (int i) @ [if truthy (rs ! i) then 1 else 0]))"
      by (simp add: make_row_def)
    with ev show "\<exists>result.
          evaluate_tree ast (zip variables (map (\<lambda>val. PBool (val = 1)) (combination_of ?n (int i)))) = Inr result
        \<and> ?table ! i =
            (if return_as_dict
             then RowDict (zip variables (combination_of ?n (int i)) @ [(''RESULT'', if truthy result then 1 else 0)])
             else RowList (combination_of ?n (int i) @ [if truthy result then 1 else 0]))"
      by blast
  qed
  have t4: "\<forall>i < 2 ^ ?n.
          length (combination_of ?n (int i)) = ?n
        \<and> set (combination_of ?n (int i)) \<subseteq> {0, 1}
        \<and> bin_value (combination_of ?n (int i)) = int i"
    using set_combination_of bin_value_row by simp
  have t5: "distinct (map (\<lambda>i. combination_of ?n (int i)) [0..<2 ^ ?n])"
    using distinct_combinations[of ?n] unfolding cs_map .
  have t6: "set (map (\<lambda>i. combination_of ?n (int i)) [0..<2 ^ ?n])
        = {bits. length bits = ?n \<and> set bits \<subseteq> {0, 1}}"
    using set_combinations[of ?n] unfolding cs_map .
  from t1 t2 t3 t4 t5 t6 show ?thesis by blast
qed


text \<open>
  The table of \<^verbatim>\<open>(A XOR B) IFF C\<close> over A, B, C has 8 rows, and row 5 (A=1, B=0, C=1)
  has the result 1.
\<close>

theorem truth_table_enumerates_hypercube_witness:
  "distinct [''A'', ''B'', ''C'']
   \<and> well_formed (ASTNode (VStr ''IFF'')
         (Some (ASTNode (VStr ''XOR'') (Some (ASTNode (VStr ''A'') None None))
                                        (Some (ASTNode (VStr ''B'') None None))))
         (Some (ASTNode (VStr ''C'') None None)))
   \<and> ''RESULT'' \<notin> set [''A'', ''B'', ''C'']
   \<and> (\<exists>table.
         generate_truth_table (ASTNode (VStr ''IFF'')
           (Some (ASTNode (VStr ''XOR'') (Some (ASTNode (VStr ''A'') None None))
                                          (Some (ASTNode (VStr ''B'') None None))))
           (Some (ASTNode (VStr ''C'') None None))) [''A'', ''B'', ''C''] True = Inr table
       \<and> length table = 8
       \<and> table ! 5 = RowDict [(''A'', 1), (''B'', 0), (''C'', 1), (''RESULT'', 1)])"
proof -
  let ?ast = "ASTNode (VStr ''IFF'')
         (Some (ASTNode (VStr ''XOR'') (Some (ASTNode (VStr ''A'') None None))
                                        (Some (ASTNode (VStr ''B'') None None))))
         (Some (ASTNode (VStr ''C'') None None))"
  let ?vs = "[''A'', ''B'', ''C'']"
  have h1: "distinct ?vs" by simp
  have h2: "well_formed ?ast" by code_simp
  have h3: "''RESULT'' \<notin> set ?vs" by simp
  have lt: "(5::nat) < 2 ^ length ?vs" by simp
  have c5: "combination_of (length ?vs) (int 5) = [1, 0, 1]" by code_simp
  have ev5: "evaluate_tree ?ast (zip ?vs (map (\<lambda>val. PBool (val = 1)) [1, 0, 1 :: int])) = Inr (PInt 1)"
    by code_simp
  from truth_table_enumerates_hypercube[where return_as_dict = True, OF h1 h2 h3]
  obtain table where t: "generate_truth_table ?ast ?vs True = Inr table"
    and len: "length table = 2 ^ length ?vs"
    and rows: "\<forall>i < 2 ^ length ?vs. \<exists>result.
          evaluate_tree ?ast (zip ?vs (map (\<lambda>val. PBool (val = 1)) (combination_of (length ?vs) (int i))))
            = Inr result
        \<and> table ! i =
            (if True
             then RowDict (zip ?vs (combination_of (length ?vs) (int i))
                           @ [(''RESULT'', if truthy result then 1 else 0)])
             else RowList (combination_of (length ?vs) (int i) @ [if truthy result then 1 else 0]))"
    by blast
  from rows lt obtain result where
    r1: "evaluate_tree ?ast (zip ?vs (map (\<lambda>val. PBool (val = 1)) (combination_of (length ?vs) (int 5)))) = Inr result"
    and r2: "table ! 5 = RowDict (zip ?vs (combination_of (length ?vs) (int 5))
                           @ [(''RESULT'', if truthy result then 1 else 0)])"
    by fastforce
  from r1 have "result = PInt 1" unfolding c5 ev5 by simp
  with r2 have "table ! 5 = RowDict [(''A'', 1), (''B'', 0), (''C'', 1), (''RESULT'', 1)]"
    unfolding c5 by (simp add: truthy_def)
  with t len h1 h2 h3 show ?thesis by simp
qed

end
